theory Spec2Isabelle
  imports Main
begin

section \<open>Strings\<close>

text \<open>
  A JavaScript string is a sequence of code units. The model uses \<^typ>\<open>string\<close>, so a
  code unit is one \<^typ>\<open>char\<close> (a value below 256, read as Latin-1), and
  \<^const>\<open>length\<close> is the \<^verbatim>\<open>.length\<close> of the source.
\<close>

definition lowerChar :: "char \<Rightarrow> char" where
  "lowerChar c =
     (let n = (of_char c :: nat)
      in if (65 \<le> n \<and> n \<le> 90) \<or> (192 \<le> n \<and> n \<le> 222 \<and> n \<noteq> 215)
         then char_of (n + 32) else c)"

definition toLowerCase :: "string \<Rightarrow> string" where
  "toLowerCase s = map lowerChar s"

text \<open>
  \<^verbatim>\<open>s.split(sep)\<close> for a one-character separator: the segments between the
  separators, never an empty array (\<^verbatim>\<open>"".split('.')\<close> is \<^verbatim>\<open>[""]\<close>).
\<close>

fun split :: "char \<Rightarrow> string \<Rightarrow> string list" where
  "split sep [] = [[]]"
| "split sep (c # cs) =
     (if c = sep then [] # split sep cs
      else (case split sep cs of [] \<Rightarrow> [[c]] | s # ss \<Rightarrow> (c # s) # ss))"

text \<open>\<^verbatim>\<open>arr.pop()\<close>, read for its value: the last element, undefined on an empty array.\<close>

definition pop :: "'a list \<Rightarrow> 'a option" where
  "pop xs = (if xs = [] then None else Some (last xs))"

section \<open>File catalog (FileList.tsx)\<close>

datatype FileCategory = documentos | imagenes | videos

definition imageExtensions :: "string list" where
  "imageExtensions = [''jpg'', ''jpeg'', ''png'', ''gif'', ''webp'', ''svg'', ''bmp'', ''ico'']"

definition videoExtensions :: "string list" where
  "videoExtensions = [''mp4'', ''avi'', ''mov'', ''mkv'', ''wmv'', ''flv'', ''webm'', ''m4v'']"

definition documentExtensions :: "string list" where
  "documentExtensions =
     [''pdf'', ''doc'', ''docx'', ''txt'', ''xls'', ''xlsx'', ''ppt'', ''pptx'', ''odt'', ''rtf'', ''csv'']"

text \<open>
  \<^verbatim>\<open>const ext = fileName.split('.').pop()?.toLowerCase()\<close>; every later use is
  \<^verbatim>\<open>ext || ''\<close>, which \<open>orEmpty\<close> is.
\<close>

definition fileExt :: "string \<Rightarrow> string option" where
  "fileExt fileName = map_option toLowerCase (pop (split CHR ''.'' fileName))"

definition orEmpty :: "string option \<Rightarrow> string" where
  "orEmpty e = (case e of None \<Rightarrow> [] | Some s \<Rightarrow> s)"

definition categoryOfExt :: "string option \<Rightarrow> FileCategory" where
  "categoryOfExt ext =
     (if orEmpty ext \<in> set imageExtensions then imagenes
      else if orEmpty ext \<in> set videoExtensions then videos
      else if orEmpty ext \<in> set documentExtensions then documentos
      else documentos)"

definition getFileCategory :: "string \<Rightarrow> FileCategory" where
  "getFileCategory fileName = categoryOfExt (fileExt fileName)"

record FileItem =
  name :: string
  size_f :: nat
  created_at :: string
  path :: string
  category :: FileCategory

text \<open>An entry of the listing the object store returns; \<open>obj_size\<close> is \<^verbatim>\<open>metadata?.size\<close>.\<close>

record FileObject =
  obj_name :: string
  obj_size :: "nat option"
  obj_created_at :: string

datatype Tab = todos | only FileCategory

datatype Toast =
    ErrorCargar | ErrorAbrir | ErrorDescargar | ErrorEliminar
  | ArchivoEliminado string

datatype StorageCall = ListFiles string | RemoveFiles "string list"

text \<open>
  The state of one FileList component. \<open>toasts\<close> and \<open>storage_calls\<close> log, oldest first,
  the notifications shown and the object-store operations issued.
\<close>

record FileListState =
  files :: "FileItem list"
  loading :: bool
  activeCategory :: Tab
  toasts :: "Toast list"
  storage_calls :: "StorageCall list"

definition toFileItem :: "string \<Rightarrow> FileObject \<Rightarrow> FileItem" where
  "toFileItem user_id file =
     \<lparr> name = obj_name file,
       size_f = (case obj_size file of None \<Rightarrow> 0 | Some n \<Rightarrow> n),
       created_at = obj_created_at file,
       path = user_id @ ''/'' @ obj_name file,
       category = getFileCategory (obj_name file) \<rparr>"

text \<open>
  \<open>loadFiles\<close>: the listing is the store's answer, \<open>Inl\<close> an error, \<open>Inr None\<close> a null
  \<^verbatim>\<open>data\<close>.
\<close>

definition loadFiles :: "string \<Rightarrow> string + FileObject list option \<Rightarrow> FileListState \<Rightarrow> FileListState" where
  "loadFiles user_id answer st =
     (let st1 = st\<lparr> storage_calls := storage_calls st @ [ListFiles user_id] \<rparr>
      in case answer of
           Inl err \<Rightarrow> st1\<lparr> toasts := toasts st1 @ [ErrorCargar], loading := False \<rparr>
         | Inr data \<Rightarrow>
             st1\<lparr> files := map (toFileItem user_id) (case data of None \<Rightarrow> [] | Some d \<Rightarrow> d),
                  loading := False \<rparr>)"

definition getCategoryCount :: "FileListState \<Rightarrow> FileCategory \<Rightarrow> nat" where
  "getCategoryCount st c = length (filter (\<lambda>f. category f = c) (files st))"

definition filteredFiles :: "FileListState \<Rightarrow> FileItem list" where
  "filteredFiles st =
     (case activeCategory st of
        todos \<Rightarrow> files st
      | only c \<Rightarrow> filter (\<lambda>f. category f = c) (files st))"

text \<open>
  \<open>handleDelete\<close> is a closure of one render: \<^verbatim>\<open>files\<close> in its body is the list that
  render saw (\<open>captured\<close>), whatever the component's state has become when the answer of
  \<^verbatim>\<open>remove\<close> arrives. The handler runs in two steps, before and after the
  \<^verbatim>\<open>await\<close>: \<open>deleteIssued\<close> sends the \<^verbatim>\<open>remove\<close>; \<open>deleteSettled\<close> takes the store's
  answer (\<open>remove_error\<close>, \<open>None\<close> for success) and acts on the state of that moment.
  Other handlers and refreshes may run between the two steps.
\<close>

definition deleteIssued :: "FileItem \<Rightarrow> FileListState \<Rightarrow> FileListState" where
  "deleteIssued file st = st\<lparr> storage_calls := storage_calls st @ [RemoveFiles [path file]] \<rparr>"

definition deleteSettled ::
  "string option \<Rightarrow> FileItem list \<Rightarrow> FileItem \<Rightarrow> FileListState \<Rightarrow> FileListState" where
  "deleteSettled remove_error captured file st =
     (case remove_error of
        Some err \<Rightarrow> st\<lparr> toasts := toasts st @ [ErrorEliminar] \<rparr>
      | None \<Rightarrow>
          st\<lparr> files := filter (\<lambda>f. path f \<noteq> path file) captured,
              toasts := toasts st @ [ArchivoEliminado (name file)] \<rparr>)"

text \<open>One whole run of the handler, nothing else happening during the \<^verbatim>\<open>await\<close>.\<close>

definition handleDelete ::
  "string option \<Rightarrow> FileItem list \<Rightarrow> FileItem \<Rightarrow> FileListState \<Rightarrow> FileListState" where
  "handleDelete remove_error captured file st =
     deleteSettled remove_error captured file (deleteIssued file st)"

section \<open>Upload coordinator (FileUpload.tsx)\<close>

text \<open>
  A template literal prints a number in decimal. \<^verbatim>\<open>Date.now()\<close> is an integer number
  of milliseconds, far below the size at which JavaScript switches to exponent notation.
\<close>

definition digit :: "nat \<Rightarrow> char" where
  "digit d = char_of (48 + d)"

function showNat :: "nat \<Rightarrow> string" where
  "showNat n = (if n < 10 then [digit n] else showNat (n div 10) @ [digit (n mod 10)])"
  by pat_completeness auto
termination
  by (relation "measure (\<lambda>n. n)") auto

declare showNat.simps [simp del]

definition showInt :: "int \<Rightarrow> string" where
  "showInt i = (if i < 0 then CHR ''-'' # showNat (nat (- i)) else showNat (nat i))"

record User =
  id_u :: string
  email :: string

record Session =
  session_user :: User

record LocalFile =
  file_name :: string
  file_bytes :: string

text \<open>
  What the handler reads from outside: the answer of \<^verbatim>\<open>supabase.auth.getSession()\<close>, the
  \<open>k\<close>-th reading of \<^verbatim>\<open>Date.now()\<close> (one reading per file, in the order of the batch),
  and the error the store answers to the \<open>k\<close>-th \<^verbatim>\<open>upload\<close> call (\<open>None\<close>: stored).
\<close>

record UploadEnv =
  getSession :: "Session option"
  now :: "nat \<Rightarrow> int"
  upload_error :: "nat \<Rightarrow> string option"

datatype UploadToast = ErrorAutenticacion | ArchivosSubidos nat | ErrorSubir

text \<open>
  \<open>uploads\<close> logs the \<^verbatim>\<open>upload(filePath, file, ...)\<close> calls issued, \<open>uploadComplete\<close>
  counts the invocations of \<^verbatim>\<open>onUploadComplete\<close>. The text of a notification is not
  modelled.
\<close>

record UploadState =
  isUploading :: bool
  uploads :: "(string \<times> LocalFile) list"
  upload_toasts :: "UploadToast list"
  uploadComplete :: nat

definition filePath :: "string \<Rightarrow> int \<Rightarrow> string \<Rightarrow> string" where
  "filePath user_id t original = user_id @ ''/'' @ showInt t @ ''-'' @ original"

definition stamped :: "(nat \<Rightarrow> int) \<Rightarrow> LocalFile list \<Rightarrow> (int \<times> string) list" where
  "stamped clock fs = map (\<lambda>(k, f). (clock k, file_name f)) (enumerate 0 fs)"

definition uploadPaths :: "string \<Rightarrow> (nat \<Rightarrow> int) \<Rightarrow> LocalFile list \<Rightarrow> string list" where
  "uploadPaths user_id clock fs = map (\<lambda>(t, n). filePath user_id t n) (stamped clock fs)"

definition allStored :: "UploadEnv \<Rightarrow> nat \<Rightarrow> bool" where
  "allStored env n = list_all (\<lambda>k. upload_error env k = None) [0..<n]"

text \<open>
  \<open>handleFiles\<close>. Every file's callback runs up to its \<^verbatim>\<open>upload\<close> call before any answer
  arrives, so all puts of the batch are issued; \<^verbatim>\<open>Promise.all\<close> then resolves when all
  were stored and rejects when one was not. The result is the state once the handler
  has finished (in between, \<open>isUploading\<close> is \<open>True\<close>).
\<close>

definition handleFiles :: "UploadEnv \<Rightarrow> User \<Rightarrow> LocalFile list \<Rightarrow> UploadState \<Rightarrow> UploadState" where
  "handleFiles env user fs st =
     (if length fs = 0 then st
      else case getSession env of
             None \<Rightarrow>
               st\<lparr> upload_toasts := upload_toasts st @ [ErrorAutenticacion],
                   isUploading := False \<rparr>
           | Some s \<Rightarrow>
               (let st1 = st\<lparr> uploads := uploads st @ zip (uploadPaths (id_u user) (now env) fs) fs \<rparr>
                in if allStored env (length fs)
                   then st1\<lparr> upload_toasts := upload_toasts st1 @ [ArchivosSubidos (length fs)],
                             uploadComplete := uploadComplete st1 + 1,
                             isUploading := False \<rparr>
                   else st1\<lparr> upload_toasts := upload_toasts st1 @ [ErrorSubir],
                             isUploading := False \<rparr>))"

section \<open>Session gate (Dashboard.tsx)\<close>

record DashboardState =
  user :: "User option"
  session :: "Session option"
  dash_loading :: bool
  fileRefreshTrigger :: nat
  navigations :: "string list"

definition initDashboard :: DashboardState where
  "initDashboard =
     \<lparr> user = None, session = None, dash_loading = True, fileRefreshTrigger = 0,
       navigations = [] \<rparr>"

text \<open>
  What can happen to a mounted Dashboard: the auth listener fires, the initial
  \<^verbatim>\<open>getSession()\<close> resolves, FileUpload calls \<^verbatim>\<open>onUploadComplete\<close>, the user signs out.
\<close>

datatype DashEvent =
    AuthStateChange "Session option"
  | SessionResolved "Session option"
  | UploadCompleted
  | SignOut

fun dashStep :: "DashboardState \<Rightarrow> DashEvent \<Rightarrow> DashboardState" where
  "dashStep st (AuthStateChange s) =
     (let st1 = st\<lparr> session := s, user := map_option session_user s \<rparr>
      in if s = None then st1\<lparr> navigations := navigations st1 @ [''/auth''] \<rparr> else st1)"
| "dashStep st (SessionResolved s) =
     (let st1 = st\<lparr> session := s, user := map_option session_user s, dash_loading := False \<rparr>
      in if s = None then st1\<lparr> navigations := navigations st1 @ [''/auth''] \<rparr> else st1)"
| "dashStep st UploadCompleted = st\<lparr> fileRefreshTrigger := fileRefreshTrigger st + 1 \<rparr>"
| "dashStep st SignOut = st\<lparr> navigations := navigations st @ [''/''] \<rparr>"

definition dashRun :: "DashEvent list \<Rightarrow> DashboardState" where
  "dashRun es = foldl dashStep initDashboard es"

text \<open>
  What a render mounts. A dependent component is recorded with the value of the state
  variable \<open>user\<close> it receives as its \<^verbatim>\<open>user\<close> prop; the page header shows
  \<^verbatim>\<open>user?.email\<close>.
\<close>

datatype Component = FileUploadC "User option" | FileListC "User option" nat

datatype View = Spinner | Page "string option" "Component list"

definition render :: "DashboardState \<Rightarrow> View" where
  "render st =
     (if dash_loading st then Spinner
      else Page (map_option email (user st))
             ((if user st \<noteq> None then [FileUploadC (user st)] else []) @
              (if user st \<noteq> None then [FileListC (user st) (fileRefreshTrigger st)] else [])))"

fun principal :: "Component \<Rightarrow> User option" where
  "principal (FileUploadC u) = u"
| "principal (FileListC u t) = u"

fun dependents :: "View \<Rightarrow> Component list" where
  "dependents Spinner = []"
| "dependents (Page e cs) = cs"

fun isResolution :: "DashEvent \<Rightarrow> bool" where
  "isResolution (SessionResolved s) = True"
| "isResolution e = False"

section \<open>Credential vault (PasswordManager.tsx)\<close>

record PasswordFormData =
  platform_name :: string
  username :: string
  password :: string
  description :: "string option"
  token :: "string option"

record Password = PasswordFormData +
  id_p :: string
  created_at_p :: string

text \<open>The row \<open>onSubmit\<close> inserts: the form's fields and the owner.\<close>

record PasswordRow = PasswordFormData +
  user_id :: string

datatype Field = Platform_name | Username | Password_field | Description | Token

datatype Issue = too_small | too_big

text \<open>\<^verbatim>\<open>z.string().min(lo).max(hi)\<close>: both checks run, in this order.\<close>

definition zString :: "Field \<Rightarrow> nat \<Rightarrow> nat \<Rightarrow> string \<Rightarrow> (Field \<times> Issue) list" where
  "zString f lo hi s =
     (if length s < lo then [(f, too_small)] else []) @
     (if hi < length s then [(f, too_big)] else [])"

definition zOptional :: "Field \<Rightarrow> nat \<Rightarrow> string option \<Rightarrow> (Field \<times> Issue) list" where
  "zOptional f hi v = (case v of None \<Rightarrow> [] | Some s \<Rightarrow> zString f 0 hi s)"

definition passwordSchema :: "PasswordFormData \<Rightarrow> (Field \<times> Issue) list" where
  "passwordSchema d =
     zString Platform_name 1 100 (platform_name d) @
     zString Username 1 255 (username d) @
     zString Password_field 1 500 (password d) @
     zOptional Description 500 (description d) @
     zOptional Token 500 (token d)"

datatype RecordCall =
    GetUser
  | SelectPasswords
  | UpdatePassword PasswordFormData string
  | InsertPassword PasswordRow
  | DeletePassword string

datatype VaultToast = VaultError | Actualizada | Guardada | Eliminada | Copiado

text \<open>
  What the vault reads from outside during one submission: the answer of
  \<^verbatim>\<open>supabase.auth.getUser()\<close>, the error of the insert or update (\<open>None\<close>: done), and the
  answer of the select that follows.
\<close>

record VaultEnv =
  getUser :: "User option"
  write_error :: "string option"
  select_answer :: "string + Password list option"

text \<open>
  The state of one PasswordManager. \<open>form_errors\<close> is the form's \<^verbatim>\<open>errors\<close>;
  \<open>record_calls\<close> logs, oldest first, every request sent to the platform.
\<close>

record VaultState =
  passwords :: "Password list"
  vault_loading :: bool
  isDialogOpen :: bool
  visiblePasswords :: "string set"
  editingPassword :: "Password option"
  form_errors :: "(Field \<times> Issue) list"
  vault_toasts :: "VaultToast list"
  record_calls :: "RecordCall list"

definition fetchPasswords :: "string + Password list option \<Rightarrow> VaultState \<Rightarrow> VaultState" where
  "fetchPasswords answer st =
     (let st1 = st\<lparr> record_calls := record_calls st @ [SelectPasswords] \<rparr>
      in case answer of
           Inl err \<Rightarrow> st1\<lparr> vault_toasts := vault_toasts st1 @ [VaultError], vault_loading := False \<rparr>
         | Inr data \<Rightarrow>
             st1\<lparr> passwords := (case data of None \<Rightarrow> [] | Some d \<Rightarrow> d),
                  vault_loading := False \<rparr>)"

text \<open>\<^verbatim>\<open>v || null\<close> on an optional string: undefined and the empty string become null.\<close>

definition orNull :: "string option \<Rightarrow> string option" where
  "orNull v = (case v of None \<Rightarrow> None | Some s \<Rightarrow> if s = [] then None else Some s)"

definition insertRow :: "PasswordFormData \<Rightarrow> User \<Rightarrow> PasswordRow" where
  "insertRow d u =
     \<lparr> platform_name = platform_name d,
       username = username d,
       password = password d,
       description = orNull (description d),
       token = orNull (token d),
       user_id = id_u u \<rparr>"

text \<open>The tail of \<open>onSubmit\<close> after a write that succeeded.\<close>

definition afterWrite :: "VaultEnv \<Rightarrow> VaultState \<Rightarrow> VaultState" where
  "afterWrite env st =
     fetchPasswords (select_answer env) (st\<lparr> isDialogOpen := False, editingPassword := None \<rparr>)"

definition onSubmit :: "VaultEnv \<Rightarrow> PasswordFormData \<Rightarrow> VaultState \<Rightarrow> VaultState" where
  "onSubmit env d st =
     (let st1 = st\<lparr> record_calls := record_calls st @ [GetUser] \<rparr>
      in case getUser env of
           None \<Rightarrow> st1\<lparr> vault_toasts := vault_toasts st1 @ [VaultError] \<rparr>
         | Some u \<Rightarrow>
             (case editingPassword st of
                Some p \<Rightarrow>
                  (let st2 = st1\<lparr> record_calls := record_calls st1 @ [UpdatePassword d (id_p p)] \<rparr>
                   in case write_error env of
                        Some err \<Rightarrow> st2\<lparr> vault_toasts := vault_toasts st2 @ [VaultError] \<rparr>
                      | None \<Rightarrow>
                          afterWrite env (st2\<lparr> vault_toasts := vault_toasts st2 @ [Actualizada] \<rparr>))
              | None \<Rightarrow>
                  (let st2 = st1\<lparr> record_calls := record_calls st1 @ [InsertPassword (insertRow d u)] \<rparr>
                   in case write_error env of
                        Some err \<Rightarrow> st2\<lparr> vault_toasts := vault_toasts st2 @ [VaultError] \<rparr>
                      | None \<Rightarrow>
                          afterWrite env (st2\<lparr> vault_toasts := vault_toasts st2 @ [Guardada] \<rparr>))))"

text \<open>
  \<^verbatim>\<open>handleSubmit(onSubmit)\<close> of the form library with the schema as resolver: the
  callback runs only when the schema reports no issue; otherwise the issues become the
  form's errors.
\<close>

definition handleSubmit :: "VaultEnv \<Rightarrow> PasswordFormData \<Rightarrow> VaultState \<Rightarrow> VaultState" where
  "handleSubmit env d st =
     (if passwordSchema d = [] then onSubmit env d (st\<lparr> form_errors := [] \<rparr>)
      else st\<lparr> form_errors := passwordSchema d \<rparr>)"

definition togglePasswordVisibility :: "string \<Rightarrow> VaultState \<Rightarrow> VaultState" where
  "togglePasswordVisibility i st =
     st\<lparr> visiblePasswords :=
           (let newSet = visiblePasswords st
            in if i \<in> newSet then newSet - {i} else insert i newSet) \<rparr>"

text \<open>
  Trimming as the specification means it (the source never trims): white space removed
  at both ends.
\<close>

definition isWhiteSpace :: "char \<Rightarrow> bool" where
  "isWhiteSpace c = ((of_char c :: nat) \<in> {9, 10, 11, 12, 13, 32, 160})"

definition trim :: "string \<Rightarrow> string" where
  "trim s = rev (dropWhile isWhiteSpace (rev (dropWhile isWhiteSpace s)))"

section \<open>Components wired together\<close>

text \<open>
  Dashboard passes \<^verbatim>\<open>() => setFileRefreshTrigger(prev => prev + 1)\<close> to FileUpload as
  \<^verbatim>\<open>onUploadComplete\<close>: one run of \<open>handleFiles\<close> inside the Dashboard, every invocation
  of the callback being an \<open>UploadCompleted\<close> step.
\<close>

definition uploadInDashboard ::
  "UploadEnv \<Rightarrow> User \<Rightarrow> LocalFile list \<Rightarrow> UploadState \<times> DashboardState \<Rightarrow> UploadState \<times> DashboardState" where
  "uploadInDashboard env u fs sd =
     (let st' = handleFiles env u fs (fst sd)
      in (st', foldl dashStep (snd sd)
                 (replicate (uploadComplete st' - uploadComplete (fst sd)) UploadCompleted)))"

section \<open>Notions the properties are stated with\<close>

text \<open>The requests of a submission: those logged after the state it started from.\<close>

definition newCalls :: "VaultState \<Rightarrow> VaultState \<Rightarrow> RecordCall list" where
  "newCalls st st' = drop (length (record_calls st)) (record_calls st')"

fun isWrite :: "RecordCall \<Rightarrow> bool" where
  "isWrite (UpdatePassword d i) = True"
| "isWrite (InsertPassword r) = True"
| "isWrite c = False"

text \<open>
  The field constraints of the data model, lengths counted as entered: required fields
  of length at least one, every field within its bound.
\<close>

definition inBounds :: "'a PasswordFormData_scheme \<Rightarrow> bool" where
  "inBounds d =
     (1 \<le> length (platform_name d) \<and> length (platform_name d) \<le> 100 \<and>
      1 \<le> length (username d) \<and> length (username d) \<le> 255 \<and>
      1 \<le> length (password d) \<and> length (password d) \<le> 500 \<and>
      (case description d of None \<Rightarrow> True | Some s \<Rightarrow> length s \<le> 500) \<and>
      (case token d of None \<Rightarrow> True | Some s \<Rightarrow> length s \<le> 500))"

fun sendsInBounds :: "RecordCall \<Rightarrow> bool" where
  "sendsInBounds (UpdatePassword d i) = inBounds d"
| "sendsInBounds (InsertPassword r) = inBounds r"
| "sendsInBounds c = True"

section \<open>Example values\<close>

definition ex_user :: User where
  "ex_user = \<lparr> id_u = ''u1'', email = ''u1@example.org'' \<rparr>"

definition ex_session :: Session where
  "ex_session = \<lparr> session_user = ex_user \<rparr>"

definition ex_pdf :: LocalFile where
  "ex_pdf = \<lparr> file_name = ''a.pdf'', file_bytes = ''%PDF'' \<rparr>"

definition ex_png :: LocalFile where
  "ex_png = \<lparr> file_name = ''b.png'', file_bytes = ''PNG'' \<rparr>"

definition ex_upload0 :: UploadState where
  "ex_upload0 = \<lparr> isUploading = False, uploads = [], upload_toasts = [], uploadComplete = 0 \<rparr>"

text \<open>
  Both files of the batch are stamped within the same millisecond; the store refuses
  the second put because the key exists (\<^verbatim>\<open>upsert: false\<close>).
\<close>

definition same_ms_env :: UploadEnv where
  "same_ms_env =
     \<lparr> getSession = Some ex_session,
       now = (\<lambda>k. 1700000000000),
       upload_error = (\<lambda>k. if k = 1 then Some ''The resource already exists'' else None) \<rparr>"

definition ticking_env :: UploadEnv where
  "ticking_env =
     \<lparr> getSession = Some ex_session,
       now = (\<lambda>k. 1700000000000 + int k),
       upload_error = (\<lambda>k. None) \<rparr>"

definition failing_env :: UploadEnv where
  "failing_env =
     \<lparr> getSession = Some ex_session,
       now = (\<lambda>k. 1700000000000 + int k),
       upload_error = (\<lambda>k. Some ''Payload too large'') \<rparr>"

definition no_session_env :: UploadEnv where
  "no_session_env =
     \<lparr> getSession = None,
       now = (\<lambda>k. 1700000000000 + int k),
       upload_error = (\<lambda>k. None) \<rparr>"

definition ex_listing :: "FileObject list" where
  "ex_listing =
     [\<lparr> obj_name = ''2-b.png'', obj_size = Some 2048, obj_created_at = ''2024-01-02'' \<rparr>,
      \<lparr> obj_name = ''1-a.pdf'', obj_size = None, obj_created_at = ''2024-01-01'' \<rparr>]"

definition ex_catalog :: FileListState where
  "ex_catalog =
     loadFiles ''u1'' (Inr (Some ex_listing))
       \<lparr> files = [], loading = True, activeCategory = only imagenes, toasts = [],
         storage_calls = [] \<rparr>"

definition ex_item :: FileItem where
  "ex_item = toFileItem ''u1'' (hd ex_listing)"

definition ex_item2 :: FileItem where
  "ex_item2 = toFileItem ''u1'' (last ex_listing)"

text \<open>
  Two delete buttons of the same render of \<open>ex_catalog\<close> are clicked one after the
  other, first on \<open>ex_item\<close>, then on \<open>ex_item2\<close>: both handlers hold the list of that
  render, both removes are sent, then the store answers the first and then the second,
  each with success.
\<close>

definition first_delete_settled :: FileListState where
  "first_delete_settled =
     deleteSettled None (files ex_catalog) ex_item
       (deleteIssued ex_item2 (deleteIssued ex_item ex_catalog))"

definition both_deletes_settled :: FileListState where
  "both_deletes_settled =
     deleteSettled None (files ex_catalog) ex_item2 first_delete_settled"

definition ex_vault0 :: VaultState where
  "ex_vault0 =
     \<lparr> passwords = [], vault_loading = False, isDialogOpen = True, visiblePasswords = {},
       editingPassword = None, form_errors = [], vault_toasts = [], record_calls = [] \<rparr>"

definition ex_stored :: Password where
  "ex_stored =
     \<lparr> platform_name = ''Gmail'', username = ''ana'', password = ''s3cret'',
       description = Some ''personal'', token = None, id_p = ''r1'',
       created_at_p = ''2024-01-01'' \<rparr>"

definition ex_vault_env :: VaultEnv where
  "ex_vault_env =
     \<lparr> getUser = Some ex_user, write_error = None, select_answer = Inr (Some [ex_stored]) \<rparr>"

text \<open>A form whose platform name is a single space.\<close>

definition blank_form :: PasswordFormData where
  "blank_form =
     \<lparr> platform_name = '' '', username = ''ana'', password = ''s3cret'',
       description = None, token = None \<rparr>"

definition empty_platform_form :: PasswordFormData where
  "empty_platform_form =
     \<lparr> platform_name = [], username = ''ana'', password = ''s3cret'',
       description = None, token = None \<rparr>"

definition edited_form :: PasswordFormData where
  "edited_form =
     \<lparr> platform_name = ''Gmail'', username = ''ana'', password = ''n3w'',
       description = Some [], token = Some [] \<rparr>"

section \<open>Properties of the file catalog\<close>

lemma split_nonempty: "split sep s \<noteq> []"
  by (induction s) (auto split: list.splits)

lemma split_no_separator: "sep \<notin> set s \<Longrightarrow> split sep s = [s]"
  by (induction s) auto

lemma fileExt_dotless: "CHR ''.'' \<notin> set fileName \<Longrightarrow> fileExt fileName = Some (toLowerCase fileName)"
  by (simp add: fileExt_def pop_def split_no_separator)

lemma getFileCategory_default:
  "orEmpty (fileExt fileName) \<notin> set imageExtensions \<Longrightarrow>
   orEmpty (fileExt fileName) \<notin> set videoExtensions \<Longrightarrow>
   getFileCategory fileName = documentos"
  by (simp add: getFileCategory_def categoryOfExt_def)

lemmas category_eval =
  getFileCategory_def fileExt_def pop_def toLowerCase_def lowerChar_def categoryOfExt_def
  orEmpty_def imageExtensions_def videoExtensions_def documentExtensions_def char_of_eq_iff

lemma getFileCategory_audio:
  "getFileCategory ''song.mp3'' = documentos \<and> getFileCategory ''take.WAV'' = documentos
   \<and> getFileCategory ''a.ogg'' = documentos \<and> getFileCategory ''b.m4a'' = documentos"
  by (simp add: category_eval)

lemma getFileCategory_case_insensitive:
  "getFileCategory ''Holiday.JPG'' = imagenes \<and> getFileCategory ''clip.v2.Mp4'' = videos"
  by (simp add: category_eval)

text \<open>
  C6. The category is computed from the lower-cased text after the last dot, and a name
  whose extension is unknown or missing belongs to the documents. The code takes the
  whole name for the extension when the name has no dot: the dotless names \<open>png\<close> and
  \<open>MP4\<close>, which have no extension, are filed under images and videos.
\<close>

theorem getFileCategory_dotless_name:
  "CHR ''.'' \<notin> set ''png'' \<and> getFileCategory ''png'' = imagenes
   \<and> CHR ''.'' \<notin> set ''MP4'' \<and> getFileCategory ''MP4'' = videos"
  by (simp add: category_eval)


lemma filter_other_paths_id:
  "p \<notin> path ` set fs \<Longrightarrow> filter (\<lambda>f. path f \<noteq> p) fs = fs"
  by (induction fs) auto


lemma filter_path_remove1:
  "distinct (map path fs) \<Longrightarrow> file \<in> set fs \<Longrightarrow>
   filter (\<lambda>f. path f \<noteq> path file) fs = remove1 file fs"
proof (induction fs)
  case Nil
  then show ?case by simp
next
  case (Cons a fs)
  show ?case
  proof (cases "a = file")
    case True
    with Cons.prems have "path file \<notin> path ` set fs" by simp
    then have "filter (\<lambda>f. path f \<noteq> path file) fs = fs" by (rule filter_other_paths_id)
    with True show ?thesis by simp
  next
    case False
    with Cons.prems have "file \<in> set fs" by simp
    with Cons.prems have "path a \<noteq> path file" by auto
    with Cons \<open>file \<in> set fs\<close> show ?thesis using False by simp
  qed
qed


lemma count_remove1:
  "x \<in> set xs \<Longrightarrow>
   length (filter P (remove1 x xs)) + (if P x then 1 else 0) = length (filter P xs)"
  by (induction xs) auto


lemma filteredFiles_subset: "set (filteredFiles st) \<subseteq> set (files st)"
  by (cases "activeCategory st") (auto simp: filteredFiles_def)


lemma toFileItem_paths:
  "distinct (map obj_name listing) \<Longrightarrow> distinct (map path (map (toFileItem uid) listing))"
  by (simp add: distinct_map toFileItem_def comp_def inj_on_def)


lemma handleDelete_keeps_distinct:
  "distinct (map path captured) \<Longrightarrow>
   distinct (map path (files st)) \<Longrightarrow>
   distinct (map path (files (handleDelete r captured file st)))"
  by (cases r) (simp_all add: handleDelete_def deleteSettled_def deleteIssued_def
      distinct_map_filter)

lemma ex_catalog_files:
  "files ex_catalog =
     [\<lparr> name = ''2-b.png'', size_f = 2048, created_at = ''2024-01-02'', path = ''u1/2-b.png'',
        category = imagenes \<rparr>,
      \<lparr> name = ''1-a.pdf'', size_f = 0, created_at = ''2024-01-01'', path = ''u1/1-a.pdf'',
        category = documentos \<rparr>]"
  by (simp add: ex_catalog_def loadFiles_def ex_listing_def toFileItem_def category_eval)

lemma ex_item_value:
  "ex_item =
     \<lparr> name = ''2-b.png'', size_f = 2048, created_at = ''2024-01-02'', path = ''u1/2-b.png'',
       category = imagenes \<rparr>"
  by (simp add: ex_item_def ex_listing_def toFileItem_def category_eval)

lemma ex_item2_value:
  "ex_item2 =
     \<lparr> name = ''1-a.pdf'', size_f = 0, created_at = ''2024-01-01'', path = ''u1/1-a.pdf'',
       category = documentos \<rparr>"
  by (simp add: ex_item2_def ex_listing_def toFileItem_def category_eval)

lemma ex_catalog_rest:
  "activeCategory ex_catalog = only imagenes \<and> toasts ex_catalog = []
   \<and> storage_calls ex_catalog = [ListFiles ''u1'']"
  by (simp add: ex_catalog_def loadFiles_def)

text \<open>
  A failed \<^verbatim>\<open>remove\<close> leaves the cached list and the rest of the state as they were,
  whatever list the handler holds, and shows the error; no run of the handler asks the
  store for a listing.
\<close>

lemma handleDelete_failed:
  "handleDelete (Some err) captured file st =
     st\<lparr> storage_calls := storage_calls st @ [RemoveFiles [path file]],
         toasts := toasts st @ [ErrorEliminar] \<rparr>
   \<and> files (handleDelete (Some err) captured file st) = files st
   \<and> storage_calls (handleDelete r captured file st) =
        storage_calls st @ [RemoveFiles [path file]]"
  by (cases r) (simp_all add: handleDelete_def deleteSettled_def deleteIssued_def)

text \<open>
  A run of the handler that holds the list the state still has when the store answers
  (no other delete and no refresh in between) removes the entries with the deleted
  object's path and nothing else; with one entry per path, exactly the deleted entry.
\<close>

lemma handleDelete_alone:
  assumes "captured = files st"
  shows "files (handleDelete None captured file st) =
       filter (\<lambda>f. path f \<noteq> path file) (files st)
   \<and> set (files (handleDelete None captured file st)) = set (files st) - {f. path f = path file}
   \<and> toasts (handleDelete None captured file st) = toasts st @ [ArchivoEliminado (name file)]
   \<and> (distinct (map path (files st)) \<and> file \<in> set (files st) \<longrightarrow>
        files (handleDelete None captured file st) = remove1 file (files st))"
proof -
  have "set (filter (\<lambda>f. path f \<noteq> path file) (files st)) = set (files st) - {f. path f = path file}"
    by auto
  then show ?thesis
    using assms
    by (simp add: handleDelete_def deleteSettled_def deleteIssued_def filter_path_remove1)
qed

lemma handleDelete_alone_counts:
  assumes "captured = files st"
    and "distinct (map path (files st))" and "file \<in> set (files st)"
  shows "(\<forall>f \<in> set (filteredFiles (handleDelete None captured file st)). path f \<noteq> path file)
   \<and> activeCategory (handleDelete None captured file st) = activeCategory st
   \<and> Suc (getCategoryCount (handleDelete None captured file st) (category file)) =
        getCategoryCount st (category file)
   \<and> (\<forall>c. c \<noteq> category file \<longrightarrow>
        getCategoryCount (handleDelete None captured file st) c = getCategoryCount st c)"
proof -
  let ?st' = "handleDelete None captured file st"
  have fs: "files ?st' = remove1 file (files st)"
    using assms
    by (simp add: handleDelete_def deleteSettled_def deleteIssued_def filter_path_remove1)
  have gone: "\<forall>f \<in> set (files ?st'). path f \<noteq> path file"
    by (simp add: handleDelete_def deleteSettled_def deleteIssued_def)
  have sub: "set (filteredFiles ?st') \<subseteq> set (files ?st')"
    by (rule filteredFiles_subset)
  from gone sub have a: "\<forall>f \<in> set (filteredFiles ?st'). path f \<noteq> path file"
    by blast
  have c: "activeCategory ?st' = activeCategory st"
    by (simp add: handleDelete_def deleteSettled_def deleteIssued_def)
  have cnt: "getCategoryCount ?st' k + (if category file = k then 1 else 0) = getCategoryCount st k" for k
    unfolding getCategoryCount_def fs using count_remove1 [OF assms(3), of "\<lambda>f. category f = k"] .
  from cnt [of "category file"]
  have d: "Suc (getCategoryCount ?st' (category file)) = getCategoryCount st (category file)"
    by simp
  have e: "\<forall>k. k \<noteq> category file \<longrightarrow> getCategoryCount ?st' k = getCategoryCount st k"
  proof (intro allI impI)
    fix k assume "k \<noteq> category file"
    with cnt [of k] show "getCategoryCount ?st' k = getCategoryCount st k" by simp
  qed
  from a c d e show ?thesis by blast
qed

lemma first_delete_settled_value:
  "files first_delete_settled = [ex_item2]
   \<and> activeCategory first_delete_settled = only imagenes
   \<and> toasts first_delete_settled = [ArchivoEliminado ''2-b.png'']
   \<and> storage_calls first_delete_settled =
        [ListFiles ''u1'', RemoveFiles [''u1/2-b.png''], RemoveFiles [''u1/1-a.pdf'']]"
  by (simp add: first_delete_settled_def deleteSettled_def deleteIssued_def ex_catalog_files
      ex_catalog_rest ex_item_value ex_item2_value)

lemma both_deletes_settled_value:
  "files both_deletes_settled = [ex_item]
   \<and> activeCategory both_deletes_settled = only imagenes
   \<and> toasts both_deletes_settled = [ArchivoEliminado ''2-b.png'', ArchivoEliminado ''1-a.pdf'']
   \<and> storage_calls both_deletes_settled =
        [ListFiles ''u1'', RemoveFiles [''u1/2-b.png''], RemoveFiles [''u1/1-a.pdf'']]"
  by (simp add: both_deletes_settled_def deleteSettled_def first_delete_settled_value
      ex_catalog_files ex_item_value ex_item2_value)

text \<open>
  C4. A delete whose remote \<open>remove\<close> fails leaves the cached list unchanged and shows
  an error; one that succeeds removes exactly the entry with the deleted object's path
  from the cached list, without a re-fetch. The code filters the list of the render the
  handler was created in, not the list cached when the store answers. Two deletes
  started from one render, both answered with success: the first leaves
  \<open>u1/1-a.pdf\<close> in the cache, the second replaces the cache by the old list without
  \<open>u1/1-a.pdf\<close>, so the entry \<open>u1/2-b.png\<close>, removed from the store and from the cache,
  is cached again.
\<close>

theorem overlapping_deletes_restore_entry:
  "map path (files ex_catalog) = [''u1/2-b.png'', ''u1/1-a.pdf'']
   \<and> storage_calls both_deletes_settled =
        [ListFiles ''u1'', RemoveFiles [''u1/2-b.png''], RemoveFiles [''u1/1-a.pdf'']]
   \<and> toasts both_deletes_settled =
        [ArchivoEliminado ''2-b.png'', ArchivoEliminado ''1-a.pdf'']
   \<and> map path (files first_delete_settled) = [''u1/1-a.pdf'']
   \<and> map path (files both_deletes_settled) = [''u1/2-b.png'']
   \<and> files both_deletes_settled \<noteq>
        filter (\<lambda>f. path f \<noteq> path ex_item2) (files first_delete_settled)"
  by (simp add: both_deletes_settled_value first_delete_settled_value ex_catalog_files
      ex_item_value ex_item2_value)

text \<open>
  C8. After a successful delete the deleted object is in no filtered view, the count of
  its category is one less and the counts of the other categories are unchanged. In the
  same run of two deletes started from one render, with the image filter active: the
  second delete removes the document \<open>u1/1-a.pdf\<close>, and with it the count of the images,
  another category, goes from 0 to 1 and the image deleted before is back in the
  filtered view.
\<close>

theorem overlapping_deletes_change_other_count:
  "category ex_item2 = documentos \<and> category ex_item = imagenes
   \<and> activeCategory first_delete_settled = only imagenes
   \<and> activeCategory both_deletes_settled = only imagenes
   \<and> getCategoryCount first_delete_settled documentos = 1
   \<and> getCategoryCount both_deletes_settled documentos = 0
   \<and> getCategoryCount first_delete_settled imagenes = 0
   \<and> getCategoryCount both_deletes_settled imagenes = 1
   \<and> filteredFiles first_delete_settled = []
   \<and> filteredFiles both_deletes_settled = [ex_item]"
  by (simp add: getCategoryCount_def filteredFiles_def both_deletes_settled_value
      first_delete_settled_value ex_item_value ex_item2_value)

section \<open>Properties of the credential vault\<close>

lemma fetchPasswords_calls:
  "record_calls (fetchPasswords a st) = record_calls st @ [SelectPasswords]"
  by (cases a) (simp_all add: fetchPasswords_def)

lemma afterWrite_calls:
  "record_calls (afterWrite env st) = record_calls st @ [SelectPasswords]"
  by (simp add: afterWrite_def fetchPasswords_calls)

lemma onSubmit_calls:
  "record_calls (onSubmit env d st) = record_calls st @
     (case getUser env of
        None \<Rightarrow> [GetUser]
      | Some u \<Rightarrow>
          [GetUser,
           (case editingPassword st of
              Some p \<Rightarrow> UpdatePassword d (id_p p)
            | None \<Rightarrow> InsertPassword (insertRow d u))] @
          (case write_error env of Some e \<Rightarrow> [] | None \<Rightarrow> [SelectPasswords]))"
  by (auto simp: onSubmit_def Let_def afterWrite_calls split: option.splits)

lemma passwordSchema_inBounds: "(passwordSchema d = []) = inBounds d"
  by (auto simp: passwordSchema_def zString_def zOptional_def inBounds_def Suc_le_eq
      split: option.splits)

lemma insertRow_inBounds: "inBounds d \<Longrightarrow> inBounds (insertRow d u)"
  by (auto simp: inBounds_def insertRow_def orNull_def Suc_le_eq split: option.splits if_splits)


text \<open>
  C9. Toggling the visibility of a record twice gives back the state it started from;
  one toggle flips the membership of the toggled id in the reveal-set and of no other
  id; a toggle leaves the stored records (their secrets and tokens) as they are and
  sends nothing.
\<close>

theorem togglePasswordVisibility_involution:
  "togglePasswordVisibility i (togglePasswordVisibility i st) = st
   \<and> (i \<in> visiblePasswords (togglePasswordVisibility i st)) = (i \<notin> visiblePasswords st)
   \<and> visiblePasswords (togglePasswordVisibility i st) - {i} = visiblePasswords st - {i}
   \<and> passwords (togglePasswordVisibility i st) = passwords st
   \<and> record_calls (togglePasswordVisibility i st) = record_calls st"
proof -
  have "togglePasswordVisibility i (togglePasswordVisibility i st) = st"
    by (cases "i \<in> visiblePasswords st") (simp_all add: togglePasswordVisibility_def insert_absorb)
  moreover have "(i \<in> visiblePasswords (togglePasswordVisibility i st)) = (i \<notin> visiblePasswords st)"
    by (simp add: togglePasswordVisibility_def Let_def)
  moreover have "visiblePasswords (togglePasswordVisibility i st) - {i} = visiblePasswords st - {i}"
    by (simp add: togglePasswordVisibility_def Let_def)
  moreover have "passwords (togglePasswordVisibility i st) = passwords st"
    by (simp add: togglePasswordVisibility_def)
  moreover have "record_calls (togglePasswordVisibility i st) = record_calls st"
    by (simp add: togglePasswordVisibility_def)
  ultimately show ?thesis by blast
qed

theorem togglePasswordVisibility_witness:
  "visiblePasswords (togglePasswordVisibility ''r1'' ex_vault0) = {''r1''}
   \<and> togglePasswordVisibility ''r1'' (togglePasswordVisibility ''r1'' ex_vault0) = ex_vault0"
  using togglePasswordVisibility_involution [of "''r1''" ex_vault0]
  by (simp add: togglePasswordVisibility_def ex_vault0_def)

text \<open>
  C10. The replacement of an empty optional field (description, token) by null is
  applied on create only. With a signed-in user, the one write of an update submission
  is the update of the edited record with exactly the submitted fields, an empty string
  going out as an empty string; the one write of a create submission is the insert of
  the submitted required fields with each optional field replaced by null when it is
  missing or empty, and kept otherwise.
\<close>

theorem onSubmit_normalises_on_create_only:
  assumes "getUser env = Some u"
  shows "(editingPassword st = Some p \<longrightarrow>
        filter isWrite (newCalls st (onSubmit env d st)) = [UpdatePassword d (id_p p)])
   \<and> (editingPassword st = None \<longrightarrow>
        filter isWrite (newCalls st (onSubmit env d st)) =
          [InsertPassword
             \<lparr> platform_name = platform_name d,
               username = username d,
               password = password d,
               description =
                 (case description d of None \<Rightarrow> None
                  | Some s \<Rightarrow> if s = [] then None else Some s),
               token =
                 (case token d of None \<Rightarrow> None
                  | Some s \<Rightarrow> if s = [] then None else Some s),
               user_id = id_u u \<rparr>])"
  using assms
  by (simp add: newCalls_def onSubmit_calls insertRow_def orNull_def split: option.splits)

theorem onSubmit_normalises_on_create_only_witness:
  "getUser ex_vault_env = Some ex_user
   \<and> description edited_form = Some [] \<and> token edited_form = Some []
   \<and> editingPassword (ex_vault0\<lparr> editingPassword := Some ex_stored \<rparr>) = Some ex_stored
   \<and> filter isWrite
        (newCalls (ex_vault0\<lparr> editingPassword := Some ex_stored \<rparr>)
           (onSubmit ex_vault_env edited_form (ex_vault0\<lparr> editingPassword := Some ex_stored \<rparr>))) =
      [UpdatePassword
         \<lparr> platform_name = ''Gmail'', username = ''ana'', password = ''n3w'',
           description = Some [], token = Some [] \<rparr> ''r1'']
   \<and> editingPassword ex_vault0 = None
   \<and> filter isWrite (newCalls ex_vault0 (onSubmit ex_vault_env edited_form ex_vault0)) =
      [InsertPassword
         \<lparr> platform_name = ''Gmail'', username = ''ana'', password = ''n3w'',
           description = None, token = None, user_id = ''u1'' \<rparr>]"
  using onSubmit_normalises_on_create_only
    [of ex_vault_env ex_user "ex_vault0\<lparr> editingPassword := Some ex_stored \<rparr>" ex_stored edited_form]
    onSubmit_normalises_on_create_only [of ex_vault_env ex_user ex_vault0 ex_stored edited_form]
  by (simp add: ex_vault_env_def ex_vault0_def edited_form_def ex_stored_def ex_user_def)

text \<open>
  C3, as the claim states it, fails: the schema counts the characters as entered and
  never trims. A platform name of one space is empty after trimming, yet the form is
  accepted and the record is inserted with that name.
\<close>

theorem blank_platform_is_inserted:
  "trim (platform_name blank_form) = []
   \<and> passwordSchema blank_form = []
   \<and> record_calls (handleSubmit ex_vault_env blank_form ex_vault0) =
        [GetUser,
         InsertPassword
           \<lparr> platform_name = '' '', username = ''ana'', password = ''s3cret'',
             description = None, token = None, user_id = ''u1'' \<rparr>,
         SelectPasswords]"
  by (simp add: trim_def isWhiteSpace_def blank_form_def passwordSchema_def zString_def
      zOptional_def handleSubmit_def onSubmit_calls ex_vault_env_def ex_vault0_def
      insertRow_def orNull_def ex_user_def)

text \<open>
  C3, amended. Every create or update submission is validated before any request is
  sent: a form in which a required field has length zero as entered (no trimming), or
  in which a field is longer than its bound (100, 255, 500, 500, 500), is rejected with
  the issues of each offending field and sends nothing. The forms that pass are those
  within the bounds, and every record sent has its required fields of length at least
  one and all its fields within the bounds.
\<close>

theorem handleSubmit_validates_first:
  "(passwordSchema d \<noteq> [] \<longrightarrow>
      newCalls st (handleSubmit env d st) = [] \<and>
      form_errors (handleSubmit env d st) = passwordSchema d)
   \<and> (passwordSchema d = []) = inBounds d
   \<and> list_all sendsInBounds (newCalls st (handleSubmit env d st))"
proof -
  have a: "passwordSchema d \<noteq> [] \<longrightarrow>
      newCalls st (handleSubmit env d st) = [] \<and>
      form_errors (handleSubmit env d st) = passwordSchema d"
    by (simp add: handleSubmit_def newCalls_def)
  have c: "list_all sendsInBounds (newCalls st (handleSubmit env d st))"
  proof (cases "passwordSchema d = []")
    case True
    then have "inBounds d" by (simp add: passwordSchema_inBounds)
    then show ?thesis using True
      by (simp add: handleSubmit_def newCalls_def onSubmit_calls insertRow_inBounds
          split: option.splits)
  next
    case False
    then show ?thesis by (simp add: handleSubmit_def newCalls_def)
  qed
  from a c passwordSchema_inBounds [of d] show ?thesis by blast
qed

theorem handleSubmit_validates_first_witness:
  "passwordSchema empty_platform_form = [(Platform_name, too_small)]
   \<and> newCalls ex_vault0 (handleSubmit ex_vault_env empty_platform_form ex_vault0) = []
   \<and> form_errors (handleSubmit ex_vault_env empty_platform_form ex_vault0) =
        [(Platform_name, too_small)]"
  using handleSubmit_validates_first [of empty_platform_form ex_vault0 ex_vault_env]
  by (simp add: empty_platform_form_def passwordSchema_def zString_def zOptional_def)

section \<open>Properties of the session gate\<close>

lemma dash_loading_run:
  "dash_loading (foldl dashStep st es) = (dash_loading st \<and> \<not> list_ex isResolution es)"
proof (induction es arbitrary: st)
  case Nil
  then show ?case by simp
next
  case (Cons e es)
  show ?case by (cases e) (simp_all add: Cons.IH Let_def)
qed

text \<open>
  C5. In every state the Dashboard reaches from its mount, through any sequence of
  auth notifications, session resolutions, upload notifications and sign-outs: every
  dependent component that is rendered receives a principal that is not null, namely
  the gate's current user; as long as the initial session request has not resolved
  the loading view is rendered; and dependents are rendered only with a user
  established and the session request resolved.
\<close>

theorem dashboard_gate:
  "(\<forall>c \<in> set (dependents (render (dashRun es))).
      principal c \<noteq> None \<and> principal c = user (dashRun es))
   \<and> (\<not> list_ex isResolution es \<longrightarrow> render (dashRun es) = Spinner)
   \<and> (dependents (render (dashRun es)) \<noteq> [] \<longrightarrow>
        user (dashRun es) \<noteq> None \<and> list_ex isResolution es)"
proof -
  have l: "dash_loading (dashRun es) = (\<not> list_ex isResolution es)"
    by (simp add: dashRun_def dash_loading_run initDashboard_def)
  have a: "\<forall>c \<in> set (dependents (render (dashRun es))).
      principal c \<noteq> None \<and> principal c = user (dashRun es)"
    by (auto simp: render_def)
  have b: "\<not> list_ex isResolution es \<longrightarrow> render (dashRun es) = Spinner"
    using l by (simp add: render_def)
  have c: "dependents (render (dashRun es)) \<noteq> [] \<longrightarrow>
        user (dashRun es) \<noteq> None \<and> list_ex isResolution es"
    using l by (auto simp: render_def split: if_splits)
  from a b c show ?thesis by blast
qed

theorem dashboard_gate_witness:
  "\<not> list_ex isResolution [AuthStateChange (Some ex_session)]
   \<and> render (dashRun [AuthStateChange (Some ex_session)]) = Spinner
   \<and> dependents (render (dashRun [AuthStateChange (Some ex_session),
        SessionResolved (Some ex_session), UploadCompleted])) =
      [FileUploadC (Some ex_user), FileListC (Some ex_user) 1]
   \<and> user (dashRun [AuthStateChange (Some ex_session),
        SessionResolved (Some ex_session), UploadCompleted]) = Some ex_user
   \<and> render (dashRun [SessionResolved None, AuthStateChange None]) = Page None []"
  using dashboard_gate [of "[AuthStateChange (Some ex_session)]"]
    dashboard_gate [of "[AuthStateChange (Some ex_session), SessionResolved (Some ex_session),
      UploadCompleted]"]
  by (simp add: dashRun_def initDashboard_def render_def ex_session_def Let_def)

section \<open>Properties of the upload coordinator\<close>

lemma showNat_small: "n < 10 \<Longrightarrow> showNat n = [digit n]"
  by (subst showNat.simps) simp

lemma showNat_big: "\<not> n < 10 \<Longrightarrow> showNat n = showNat (n div 10) @ [digit (n mod 10)]"
  by (subst showNat.simps) simp

lemma showNat_nonempty: "showNat n \<noteq> []"
  by (subst showNat.simps) simp

lemma showNat_digits: "set (showNat n) \<subseteq> digit ` {0..<10}"
proof (induction n rule: showNat.induct)
  case (1 n)
  show ?case
  proof (cases "n < 10")
    case True
    then show ?thesis by (subst showNat.simps) simp
  next
    case False
    with 1 have "set (showNat (n div 10)) \<subseteq> digit ` {0..<10}" by simp
    moreover have "digit (n mod 10) \<in> digit ` {0..<10}" by simp
    ultimately show ?thesis using False by (subst showNat.simps) simp
  qed
qed

lemma digit_inj: "a < 10 \<Longrightarrow> b < 10 \<Longrightarrow> digit a = digit b \<Longrightarrow> a = b"
proof -
  assume a: "a < 10" and b: "b < 10" and eq: "digit a = digit b"
  from eq have "(of_char (digit a) :: nat) = of_char (digit b)" by simp
  then have "(48 + a) mod 256 = (48 + b) mod 256" by (simp add: digit_def)
  with a b show "a = b" by simp
qed

lemma digit_not_dash: "d < 10 \<Longrightarrow> digit d \<noteq> CHR ''-''"
proof
  assume d: "d < 10" and eq: "digit d = CHR ''-''"
  from eq have "(of_char (digit d) :: nat) = of_char CHR ''-''" by simp
  then have "(48 + d) mod 256 = 45" by (simp add: digit_def)
  with d show False by simp
qed

lemma showNat_no_dash: "CHR ''-'' \<notin> set (showNat n)"
proof
  assume "CHR ''-'' \<in> set (showNat n)"
  with showNat_digits [of n] obtain d where "d < 10" and "CHR ''-'' = digit d" by auto
  with digit_not_dash [of d] show False by simp
qed

lemma showNat_inj: "showNat n = showNat m \<Longrightarrow> n = m"
proof (induction n arbitrary: m rule: showNat.induct)
  case (1 n)
  show ?case
  proof (cases "n < 10")
    case nS: True
    show ?thesis
    proof (cases "m < 10")
      case True
      with nS "1.prems" have "digit n = digit m" by (simp add: showNat_small)
      with nS True show ?thesis by (rule digit_inj)
    next
      case False
      with nS "1.prems" have "[digit n] = showNat (m div 10) @ [digit (m mod 10)]"
        by (simp add: showNat_small showNat_big)
      then have "showNat (m div 10) = []" by simp
      with showNat_nonempty show ?thesis by blast
    qed
  next
    case nB: False
    show ?thesis
    proof (cases "m < 10")
      case True
      with nB "1.prems" have "showNat (n div 10) @ [digit (n mod 10)] = [digit m]"
        by (simp add: showNat_small showNat_big)
      then have "showNat (n div 10) = []" by simp
      with showNat_nonempty show ?thesis by blast
    next
      case False
      with nB "1.prems" have eq: "showNat (n div 10) @ [digit (n mod 10)] = showNat (m div 10) @ [digit (m mod 10)]"
        by (simp add: showNat_big)
      then have h: "showNat (n div 10) = showNat (m div 10)" and l: "digit (n mod 10) = digit (m mod 10)"
        by simp_all
      from "1.IH" [OF nB h] have dv: "n div 10 = m div 10" .
      have "n mod 10 < 10" and "m mod 10 < 10" by simp_all
      then have md: "n mod 10 = m mod 10" using l by (rule digit_inj)
      from dv md have "n div 10 * 10 + n mod 10 = m div 10 * 10 + m mod 10" by simp
      then show ?thesis by simp
    qed
  qed
qed

lemma split_at_mark:
  "x \<notin> set as \<Longrightarrow> x \<notin> set bs \<Longrightarrow> as @ x # xs = bs @ x # ys \<Longrightarrow> as = bs \<and> xs = ys"
proof (induction as arbitrary: bs)
  case Nil
  then show ?case by (cases bs) auto
next
  case (Cons a as)
  then show ?case by (cases bs) auto
qed

lemma showInt_neg: "i < 0 \<Longrightarrow> showInt i = CHR ''-'' # showNat (nat (- i))"
  by (simp add: showInt_def)

lemma showInt_nonneg: "0 \<le> i \<Longrightarrow> showInt i = showNat (nat i)"
  by (simp add: showInt_def)

lemma hd_showNat: "hd (showNat n) \<noteq> CHR ''-''"
proof -
  have "hd (showNat n) \<in> set (showNat n)" using showNat_nonempty by (rule hd_in_set)
  with showNat_no_dash show ?thesis by metis
qed

lemma showInt_signs:
  assumes "0 \<le> i" and "j < 0"
  shows "showInt i @ CHR ''-'' # u \<noteq> showInt j @ CHR ''-'' # v"
proof
  assume eq: "showInt i @ CHR ''-'' # u = showInt j @ CHR ''-'' # v"
  have l: "hd (showInt i @ CHR ''-'' # u) = hd (showNat (nat i))"
    unfolding showInt_nonneg [OF assms(1)] using showNat_nonempty by (rule hd_append2)
  have r: "hd (showInt j @ CHR ''-'' # v) = CHR ''-''"
    unfolding showInt_neg [OF assms(2)] by simp
  from eq have "hd (showInt i @ CHR ''-'' # u) = hd (showInt j @ CHR ''-'' # v)"
    by (rule arg_cong)
  then have "hd (showNat (nat i)) = CHR ''-''" unfolding l r .
  with hd_showNat show False by blast
qed

lemma showNat_mark_inj:
  assumes "showNat n @ CHR ''-'' # x = showNat m @ CHR ''-'' # y"
  shows "n = m \<and> x = y"
proof -
  from showNat_no_dash showNat_no_dash assms
  have "showNat n = showNat m \<and> x = y" by (rule split_at_mark)
  then show ?thesis using showNat_inj by blast
qed

lemma showInt_inj:
  assumes "showInt a @ CHR ''-'' # x = showInt b @ CHR ''-'' # y"
  shows "a = b \<and> x = y"
proof (cases "a < 0")
  case aN: True
  show ?thesis
  proof (cases "b < 0")
    case True
    from assms have "showNat (nat (- a)) @ CHR ''-'' # x = showNat (nat (- b)) @ CHR ''-'' # y"
      unfolding showInt_neg [OF aN] showInt_neg [OF True] by simp
    then have "nat (- a) = nat (- b) \<and> x = y" by (rule showNat_mark_inj)
    with aN True show ?thesis by linarith
  next
    case False
    then have "0 \<le> b" by simp
    from showInt_signs [OF this aN] assms show ?thesis by metis
  qed
next
  case aP: False
  then have a0: "0 \<le> a" by simp
  show ?thesis
  proof (cases "b < 0")
    case True
    from showInt_signs [OF a0 True] assms show ?thesis by metis
  next
    case False
    then have b0: "0 \<le> b" by simp
    from assms have "showNat (nat a) @ CHR ''-'' # x = showNat (nat b) @ CHR ''-'' # y"
      unfolding showInt_nonneg [OF a0] showInt_nonneg [OF b0] .
    then have "nat a = nat b \<and> x = y" by (rule showNat_mark_inj)
    with a0 b0 show ?thesis by linarith
  qed
qed

lemma filePath_inj:
  "filePath uid t n = filePath uid t' n' \<Longrightarrow> t = t' \<and> n = n'"
  unfolding filePath_def by (rule showInt_inj) simp

lemma uploadPaths_distinct:
  "distinct (uploadPaths uid clock fs) = distinct (stamped clock fs)"
proof -
  have "inj_on (\<lambda>(t, n). filePath uid t n) A" for A
  proof (rule inj_onI)
    fix p q :: "int \<times> string"
    assume "(case p of (t, n) \<Rightarrow> filePath uid t n) = (case q of (t, n) \<Rightarrow> filePath uid t n)"
    then have "filePath uid (fst p) (snd p) = filePath uid (fst q) (snd q)"
      by (simp add: case_prod_beta)
    then have "fst p = fst q \<and> snd p = snd q" by (rule filePath_inj)
    then show "p = q" by (simp add: prod_eq_iff)
  qed
  then show ?thesis by (simp add: uploadPaths_def distinct_map)
qed

lemma length_uploadPaths: "length (uploadPaths uid clock fs) = length fs"
  by (simp add: uploadPaths_def stamped_def)

lemma nth_uploadPaths:
  "k < length fs \<Longrightarrow> uploadPaths uid clock fs ! k = filePath uid (clock k) (file_name (fs ! k))"
  by (simp add: uploadPaths_def stamped_def nth_enumerate_eq)


lemma filePath_eq_iff:
  "(filePath uid t n = filePath uid t' n') = (t = t' \<and> n = n')"
  using filePath_inj by blast

lemma stamped_names: "map snd (stamped clock fs) = map file_name fs"
proof -
  have "map snd (stamped clock fs) = map (file_name \<circ> snd) (enumerate 0 fs)"
    by (simp add: stamped_def comp_def case_prod_beta)
  then show ?thesis by (simp flip: map_map)
qed

lemma stamped_distinct_names: "distinct (map file_name fs) \<Longrightarrow> distinct (stamped clock fs)"
proof -
  assume "distinct (map file_name fs)"
  then have "distinct (map snd (stamped clock fs))" by (simp add: stamped_names)
  then show ?thesis by (simp add: distinct_map)
qed

lemma handleFiles_keys:
  "map fst (uploads (handleFiles env u fs st)) =
     map fst (uploads st) @
     (if getSession env = None then [] else uploadPaths (id_u u) (now env) fs)"
proof (cases "fs = []")
  case True
  then show ?thesis by (simp add: handleFiles_def uploadPaths_def stamped_def)
next
  case False
  then show ?thesis
    by (cases "getSession env") (simp_all add: handleFiles_def Let_def length_uploadPaths)
qed

lemma handleFiles_uploadComplete:
  "uploadComplete (handleFiles env u fs st) =
     uploadComplete st +
     (if fs \<noteq> [] \<and> getSession env \<noteq> None \<and> allStored env (length fs) then 1 else 0)"
  by (cases "getSession env") (simp_all add: handleFiles_def Let_def)

lemma refresh_steps:
  "fileRefreshTrigger (foldl dashStep d (replicate n UploadCompleted)) = fileRefreshTrigger d + n"
  by (induction n arbitrary: d) simp_all

lemma showNat_stamp: "showNat 1700000000000 = ''1700000000000''"
  by (simp add: showNat.simps [of "numeral k" for k] showNat_small digit_def char_of_eq_iff)

text \<open>
  The key of every put is \<open>{principalId}/{clock reading}-{original name}\<close>, the reading
  being the one taken for that file, and two keys of a batch are equal exactly when both
  the readings and the names of the two files are equal.
\<close>

lemma uploadPaths_keys:
  assumes "getSession env = Some s"
  shows "map fst (uploads (handleFiles env u fs st)) =
       map fst (uploads st) @ uploadPaths (id_u u) (now env) fs
   \<and> length (uploadPaths (id_u u) (now env) fs) = length fs
   \<and> (\<forall>k < length fs. uploadPaths (id_u u) (now env) fs ! k =
         id_u u @ ''/'' @ showInt (now env k) @ ''-'' @ file_name (fs ! k))
   \<and> (\<forall>i < length fs. \<forall>j < length fs.
         (uploadPaths (id_u u) (now env) fs ! i = uploadPaths (id_u u) (now env) fs ! j) =
         (now env i = now env j \<and> file_name (fs ! i) = file_name (fs ! j)))
   \<and> distinct (uploadPaths (id_u u) (now env) fs) = distinct (stamped (now env) fs)
   \<and> (distinct (map file_name fs) \<longrightarrow> distinct (uploadPaths (id_u u) (now env) fs))"
proof -
  have a: "map fst (uploads (handleFiles env u fs st)) =
       map fst (uploads st) @ uploadPaths (id_u u) (now env) fs"
    using assms by (simp add: handleFiles_keys)
  have b: "length (uploadPaths (id_u u) (now env) fs) = length fs"
    by (rule length_uploadPaths)
  have c: "\<forall>k < length fs. uploadPaths (id_u u) (now env) fs ! k =
         id_u u @ ''/'' @ showInt (now env k) @ ''-'' @ file_name (fs ! k)"
    by (simp add: nth_uploadPaths filePath_def)
  have d: "\<forall>i < length fs. \<forall>j < length fs.
         (uploadPaths (id_u u) (now env) fs ! i = uploadPaths (id_u u) (now env) fs ! j) =
         (now env i = now env j \<and> file_name (fs ! i) = file_name (fs ! j))"
    by (simp add: nth_uploadPaths filePath_eq_iff)
  have e: "distinct (uploadPaths (id_u u) (now env) fs) = distinct (stamped (now env) fs)"
    by (rule uploadPaths_distinct)
  have f: "distinct (map file_name fs) \<longrightarrow> distinct (uploadPaths (id_u u) (now env) fs)"
    by (simp add: e stamped_distinct_names)
  from a b c d e f show ?thesis by blast
qed

lemma ticking_clock_keys_differ:
  "stamped (now ticking_env) [ex_pdf, ex_pdf] =
        [(1700000000000, ''a.pdf''), (1700000000001, ''a.pdf'')]
   \<and> distinct (map fst (uploads (handleFiles ticking_env ex_user [ex_pdf, ex_pdf] ex_upload0)))"
  using uploadPaths_keys [of ticking_env ex_session ex_user "[ex_pdf, ex_pdf]" ex_upload0]
  by (simp add: ticking_env_def ex_upload0_def stamped_def ex_pdf_def)

text \<open>
  C1. Every file of a batch is put under the key
  \<open>{principalId}/{currentEpochMillis}-{originalName}\<close>, and the keys of a batch are
  pairwise distinct even when two of its files have the same name. The code has the
  clock reading as the only disambiguator: two files named \<open>a.pdf\<close> in one batch,
  stamped within the same millisecond, are both put under
  \<open>u1/1700000000000-a.pdf\<close>; the store refuses the second put, the batch ends with the
  error notification and the upload-completed notification is not sent.
\<close>

theorem same_name_same_ms_collide:
  "map file_name [ex_pdf, ex_pdf] = [''a.pdf'', ''a.pdf'']
   \<and> now same_ms_env 0 = now same_ms_env 1
   \<and> map fst (uploads (handleFiles same_ms_env ex_user [ex_pdf, ex_pdf] ex_upload0)) =
        [''u1/1700000000000-a.pdf'', ''u1/1700000000000-a.pdf'']
   \<and> \<not> distinct (map fst (uploads (handleFiles same_ms_env ex_user [ex_pdf, ex_pdf] ex_upload0)))
   \<and> upload_toasts (handleFiles same_ms_env ex_user [ex_pdf, ex_pdf] ex_upload0) = [ErrorSubir]
   \<and> uploadComplete (handleFiles same_ms_env ex_user [ex_pdf, ex_pdf] ex_upload0) = 0"
proof -
  have k: "map fst (uploads (handleFiles same_ms_env ex_user [ex_pdf, ex_pdf] ex_upload0)) =
        [''u1/1700000000000-a.pdf'', ''u1/1700000000000-a.pdf'']"
    by (simp add: handleFiles_keys same_ms_env_def ex_upload0_def uploadPaths_def stamped_def
        filePath_def showInt_def showNat_stamp ex_user_def ex_pdf_def)
  have n: "\<not> allStored same_ms_env (length [ex_pdf, ex_pdf])"
    by (simp add: allStored_def same_ms_env_def upt_rec)
  have t: "upload_toasts (handleFiles same_ms_env ex_user [ex_pdf, ex_pdf] ex_upload0) = [ErrorSubir]"
    using n by (simp add: handleFiles_def Let_def) (simp add: same_ms_env_def ex_upload0_def)
  have c: "uploadComplete (handleFiles same_ms_env ex_user [ex_pdf, ex_pdf] ex_upload0) = 0"
    using n by (simp add: handleFiles_uploadComplete ex_upload0_def)
  have m: "map file_name [ex_pdf, ex_pdf] = [''a.pdf'', ''a.pdf'']"
    and r: "now same_ms_env 0 = now same_ms_env 1"
    by (simp_all add: ex_pdf_def same_ms_env_def)
  from k have "\<not> distinct (map fst (uploads (handleFiles same_ms_env ex_user [ex_pdf, ex_pdf] ex_upload0)))"
    by simp
  with k t c m r show ?thesis by blast
qed

text \<open>
  C2, as the claim states it, fails: \<open>onUploadComplete\<close> is invoked after the success
  notification only. A batch whose put is refused ends with the error notification,
  the callback is not invoked and the catalog's refresh trigger stays where it was.
\<close>

theorem failed_upload_not_notified:
  "map fst (uploads (handleFiles failing_env ex_user [ex_pdf] ex_upload0)) =
     [''u1/1700000000000-a.pdf'']
   \<and> upload_toasts (handleFiles failing_env ex_user [ex_pdf] ex_upload0) = [ErrorSubir]
   \<and> uploadComplete (handleFiles failing_env ex_user [ex_pdf] ex_upload0) = 0
   \<and> fileRefreshTrigger
        (snd (uploadInDashboard failing_env ex_user [ex_pdf] (ex_upload0, initDashboard))) = 0"
  by (simp add: handleFiles_keys handleFiles_uploadComplete uploadInDashboard_def
      failing_env_def ex_upload0_def uploadPaths_def stamped_def filePath_def showInt_def
      showNat_stamp ex_user_def ex_pdf_def allStored_def initDashboard_def handleFiles_def)

text \<open>
  C2, amended. The upload-completed notification is emitted exactly once for a batch
  all of whose puts were stored (with it the catalog's refresh trigger goes up by one),
  and not at all for a batch in which a put failed, for a batch stopped for want of a
  session, or for an empty batch: then the refresh trigger is unchanged.
\<close>

theorem handleFiles_notifies_on_success:
  "uploadComplete (handleFiles env u fs st) =
     uploadComplete st +
     (if fs \<noteq> [] \<and> getSession env \<noteq> None \<and> allStored env (length fs) then 1 else 0)
   \<and> fileRefreshTrigger (snd (uploadInDashboard env u fs (st, d))) =
     fileRefreshTrigger d +
     (if fs \<noteq> [] \<and> getSession env \<noteq> None \<and> allStored env (length fs) then 1 else 0)"
  by (simp add: uploadInDashboard_def Let_def refresh_steps handleFiles_uploadComplete)

theorem handleFiles_notifies_on_success_witness:
  "allStored ticking_env (length [ex_pdf, ex_png])
   \<and> uploadComplete (handleFiles ticking_env ex_user [ex_pdf, ex_png] ex_upload0) = 1
   \<and> fileRefreshTrigger
        (snd (uploadInDashboard ticking_env ex_user [ex_pdf, ex_png] (ex_upload0, initDashboard))) = 1
   \<and> \<not> allStored same_ms_env (length [ex_pdf, ex_pdf])
   \<and> uploadComplete (handleFiles same_ms_env ex_user [ex_pdf, ex_pdf] ex_upload0) = 0"
  using handleFiles_notifies_on_success [of ticking_env ex_user "[ex_pdf, ex_png]" ex_upload0 initDashboard]
    handleFiles_notifies_on_success [of same_ms_env ex_user "[ex_pdf, ex_pdf]" ex_upload0 initDashboard]
  by (simp add: allStored_def ticking_env_def same_ms_env_def ex_upload0_def initDashboard_def
      upt_rec)

text \<open>
  C7. An upload attempt (a batch that is not empty) made without a live session ends
  with the authentication error and issues no put, nor the upload-completed
  notification; whenever a run of the handler issues a put, the session check found a
  live session.
\<close>

theorem handleFiles_no_session:
  "(getSession env = None \<longrightarrow>
      uploads (handleFiles env u fs st) = uploads st \<and>
      uploadComplete (handleFiles env u fs st) = uploadComplete st \<and>
      (fs \<noteq> [] \<longrightarrow>
         upload_toasts (handleFiles env u fs st) = upload_toasts st @ [ErrorAutenticacion]))
   \<and> (uploads (handleFiles env u fs st) \<noteq> uploads st \<longrightarrow> getSession env \<noteq> None)"
proof -
  have a: "getSession env = None \<longrightarrow>
      uploads (handleFiles env u fs st) = uploads st \<and>
      uploadComplete (handleFiles env u fs st) = uploadComplete st \<and>
      (fs \<noteq> [] \<longrightarrow>
         upload_toasts (handleFiles env u fs st) = upload_toasts st @ [ErrorAutenticacion])"
    by (simp add: handleFiles_def)
  then have "uploads (handleFiles env u fs st) \<noteq> uploads st \<longrightarrow> getSession env \<noteq> None"
    by blast
  with a show ?thesis by blast
qed

theorem handleFiles_no_session_witness:
  "getSession no_session_env = None \<and> [ex_pdf, ex_png] \<noteq> []
   \<and> uploads (handleFiles no_session_env ex_user [ex_pdf, ex_png] ex_upload0) = []
   \<and> upload_toasts (handleFiles no_session_env ex_user [ex_pdf, ex_png] ex_upload0) =
        [ErrorAutenticacion]
   \<and> uploads (handleFiles ticking_env ex_user [ex_pdf] ex_upload0) \<noteq> uploads ex_upload0
   \<and> getSession ticking_env \<noteq> None"
  using handleFiles_no_session [of no_session_env ex_user "[ex_pdf, ex_png]" ex_upload0]
    handleFiles_no_session [of ticking_env ex_user "[ex_pdf]" ex_upload0]
  by (simp add: no_session_env_def ticking_env_def ex_upload0_def)
     (simp add: handleFiles_def Let_def ticking_env_def ex_upload0_def uploadPaths_def
       stamped_def allStored_def)

end
